theory Spec2Isabelle
  imports
    Main
    "HOL-Library.List_Lexorder"
    "HOL-Library.Multiset"
    "HOL-Library.Sublist"
begin

unbundle bit_operations_syntax

section \<open>The component library of the desktop front end\<close>

text \<open>
  A shallow embedding of \<^verbatim>\<open>desktop-frontend/src/component_library.py\<close>: the class
  \<^verbatim>\<open>ComponentButton\<close> (a tool button that starts a drag) and the class
  \<^verbatim>\<open>ComponentLibrary\<close> (the dock widget that loads the component table, groups it by
  category, creates one button per component with an icon, and filters the buttons).

  Conventions of the embedding.
  \<^item> A Python \<^verbatim>\<open>str\<close> is the list of its code points (\<open>pystr\<close>); Python compares
    strings by code point, which is the lexicographic order of these lists. \<open>str\<close> turns
    an ASCII literal into such a string.
  \<^item> Exceptions are values of \<open>py_error\<close>; a computation that may raise returns
    \<open>py_error + 'a\<close>.
  \<^item> The file system is a parameter: the set of paths that exist.
  \<^item> Mutation of \<^verbatim>\<open>self\<close> is state passing on a record of the attributes.
\<close>

subsection \<open>Strings\<close>

type_synonym pystr = "nat list"

definition str :: "string \<Rightarrow> pystr" where
  "str s = map of_char s"

text \<open>
  \<^verbatim>\<open>str.strip()\<close> removes the leading and trailing whitespace characters. The
  whitespace characters of Python are the 29 code points below: the ASCII ones (9 to 13,
  28 to 32), U+0085, U+00A0, U+1680, U+2000 to U+200A, U+2028, U+2029, U+202F, U+205F
  and U+3000.
\<close>

definition isspace :: "nat \<Rightarrow> bool" where
  "isspace c =
     ((0x9 \<le> c \<and> c \<le> 0xD) \<or> (0x1C \<le> c \<and> c \<le> 0x20) \<or> c = 0x85 \<or> c = 0xA0 \<or>
      c = 0x1680 \<or> (0x2000 \<le> c \<and> c \<le> 0x200A) \<or> c = 0x2028 \<or> c = 0x2029 \<or>
      c = 0x202F \<or> c = 0x205F \<or> c = 0x3000)"

definition strip :: "pystr \<Rightarrow> pystr" where
  "strip s = rev (dropWhile isspace (rev (dropWhile isspace s)))"

text \<open>
  \<^verbatim>\<open>str.lower()\<close>. On a string of ASCII characters the letters A to Z move to a to z
  and every other character stays. On a string with a character beyond ASCII the result
  comes from the Unicode character database of the interpreter (the lower-case mapping of
  every character, one to three code points, and the rule for a final capital sigma); that
  function is not part of the program and is the parameter \<open>unicode_lower\<close> here.
\<close>

definition ascii_lower :: "nat \<Rightarrow> nat" where
  "ascii_lower c = (if 65 \<le> c \<and> c \<le> 90 then c + 32 else c)"

definition isascii :: "pystr \<Rightarrow> bool" where
  "isascii s = list_all (\<lambda>c. c < 128) s"

definition lower :: "(pystr \<Rightarrow> pystr) \<Rightarrow> pystr \<Rightarrow> pystr" where
  "lower unicode_lower s = (if isascii s then map ascii_lower s else unicode_lower s)"

text \<open>
  \<^verbatim>\<open>needle in hay\<close> on strings: the search for \<open>needle\<close> at every position of
  \<open>hay\<close>, from the left.
\<close>

fun starts_with :: "pystr \<Rightarrow> pystr \<Rightarrow> bool" where
  "starts_with hay [] = True"
| "starts_with [] (c # needle) = False"
| "starts_with (h # hay) (c # needle) = (h = c \<and> starts_with hay needle)"

fun str_in :: "pystr \<Rightarrow> pystr \<Rightarrow> bool" where
  "str_in needle [] = (needle = [])"
| "str_in needle (h # hay) = (starts_with (h # hay) needle \<or> str_in needle hay)"

text \<open>
  \<^verbatim>\<open>os.path.join\<close> of \<^verbatim>\<open>posixpath\<close>: a component that starts with a slash (code point
  47) replaces what came before it; otherwise it is appended, after a slash unless the path
  so far is empty or ends with one.
\<close>

definition join2 :: "pystr \<Rightarrow> pystr \<Rightarrow> pystr" where
  "join2 path b =
     (if b \<noteq> [] \<and> hd b = 47 then b
      else if path = [] \<or> last path = 47 then path @ b
      else path @ [47] @ b)"

definition path_join :: "pystr \<Rightarrow> pystr list \<Rightarrow> pystr" where
  "path_join a p = foldl join2 a p"

subsection \<open>Exceptions and the file system\<close>

datatype py_error =
    KeyError pystr
  | OSError
  | AttributeError
  | CsvError
  | UnicodeDecodeError

text \<open>The paths for which \<^verbatim>\<open>os.path.exists\<close> is true.\<close>

type_synonym filesystem = "pystr set"

definition path_exists :: "filesystem \<Rightarrow> pystr \<Rightarrow> bool" where
  "path_exists fs p = (p \<in> fs)"

subsection \<open>Reading the component table\<close>

text \<open>
  The opened file as \<^verbatim>\<open>csv.reader\<close> goes through it: a list of items, each either the
  fields of a record as the file has them, or an error that reading raises at that point
  (a byte sequence that is not UTF-8, or a line the parser refuses). The parser also
  refuses a record with a field of more than \<^verbatim>\<open>csv.field_size_limit()\<close> characters, which
  is 131072 unless changed, and this program does not change it.
\<close>

type_synonym record_item = "py_error + pystr list"

definition field_size_limit :: nat where
  "field_size_limit = 131072"

definition reader_next :: "record_item \<Rightarrow> py_error + pystr list" where
  "reader_next item =
     (case item of
        Inl e \<Rightarrow> Inl e
      | Inr rec \<Rightarrow>
          if list_ex (\<lambda>f. field_size_limit < length f) rec then Inl CsvError
          else Inr rec)"

text \<open>
  \<^verbatim>\<open>csv.DictReader\<close> takes the first record of the file as the field names and turns
  every later record into a dictionary from field name to value: a record with fewer
  values than field names gets \<^verbatim>\<open>None\<close> for the rest, the values beyond the field
  names are stored under the key \<^verbatim>\<open>None\<close> (never read by this program), of two equal
  field names the later one wins, and an empty record is passed over. A row is a map
  from field name to value, where the value \<open>None\<close> is Python's \<^verbatim>\<open>None\<close>.
\<close>

type_synonym row = "pystr \<rightharpoonup> pystr option"

definition dict_row :: "pystr list \<Rightarrow> pystr list \<Rightarrow> row" where
  "dict_row fieldnames rec =
     map_of (rev (zip fieldnames
       (map Some rec @ replicate (length fieldnames - length rec) None)))"

text \<open>\<^verbatim>\<open>row[key]\<close> raises \<^verbatim>\<open>KeyError\<close> on a key the dictionary does not have.\<close>

definition getitem :: "row \<Rightarrow> pystr \<Rightarrow> py_error + pystr option" where
  "getitem r key = (case r key of None \<Rightarrow> Inl (KeyError key) | Some v \<Rightarrow> Inr v)"

text \<open>Truth of a field value: \<^verbatim>\<open>None\<close> and the empty string are false.\<close>

fun truthy :: "pystr option \<Rightarrow> bool" where
  "truthy None = False"
| "truthy (Some s) = (s \<noteq> [])"

text \<open>
  \<^verbatim>\<open>x.strip()\<close> on a field value; it is only evaluated on true values, which are
  strings.
\<close>

fun strip_value :: "pystr option \<Rightarrow> pystr" where
  "strip_value None = []"
| "strip_value (Some s) = strip s"

record component =
  parent :: pystr
  name :: pystr
  object :: pystr

text \<open>
  The body of the loop of \<^verbatim>\<open>_load_components\<close> for one row: \<open>Inr None\<close> when the
  row is passed over, \<open>Inr (Some c)\<close> when \<open>c\<close> is appended, \<open>Inl e\<close> when \<open>e\<close> is
  raised. The condition \<^verbatim>\<open>row['parent'] and row['name']\<close> reads \<^verbatim>\<open>row['name']\<close> only
  when \<^verbatim>\<open>row['parent']\<close> is true.
\<close>

definition load_row :: "row \<Rightarrow> py_error + component option" where
  "load_row r =
     (case getitem r (str ''parent'') of
        Inl e \<Rightarrow> Inl e
      | Inr p \<Rightarrow>
          if \<not> truthy p then Inr None
          else (case getitem r (str ''name'') of
             Inl e \<Rightarrow> Inl e
           | Inr n \<Rightarrow>
               if \<not> truthy n then Inr None
               else (case getitem r (str ''object'') of
                  Inl e \<Rightarrow> Inl e
                | Inr ob \<Rightarrow>
                    Inr (Some \<lparr>parent = strip_value p, name = strip_value n,
                      object = (if truthy ob then strip_value ob else [])\<rparr>))))"

text \<open>
  The loop \<^verbatim>\<open>for row in reader\<close>, on the list \<^verbatim>\<open>self.component_data\<close>, once the field
  names are known: the next record is read, an empty record is passed over, any other is
  turned into a row and handed to the loop body. An exception, from reading or from the
  body, leaves the loop with the components appended so far; the items after it are never
  read.
\<close>

fun load_records ::
  "pystr list \<Rightarrow> record_item list \<Rightarrow> component list \<Rightarrow> py_error option \<times> component list" where
  "load_records fieldnames [] acc = (None, acc)"
| "load_records fieldnames (item # items) acc =
     (case reader_next item of
        Inl e \<Rightarrow> (Some e, acc)
      | Inr rec \<Rightarrow>
          if rec = [] then load_records fieldnames items acc
          else (case load_row (dict_row fieldnames rec) of
             Inl e \<Rightarrow> (Some e, acc)
           | Inr None \<Rightarrow> load_records fieldnames items acc
           | Inr (Some c) \<Rightarrow> load_records fieldnames items (acc @ [c])))"

text \<open>
  The whole iteration: the first record read gives the field names; a file with no record
  gives no row.
\<close>

fun load_reader :: "record_item list \<Rightarrow> component list \<Rightarrow> py_error option \<times> component list" where
  "load_reader [] acc = (None, acc)"
| "load_reader (header # items) acc =
     (case reader_next header of
        Inl e \<Rightarrow> (Some e, acc)
      | Inr fieldnames \<Rightarrow> load_records fieldnames items acc)"

subsection \<open>The button of one component\<close>

datatype QPoint = QPoint int int

fun isNull :: "QPoint \<Rightarrow> bool" where
  "isNull (QPoint px py) = (px = 0 \<and> py = 0)"

fun minus_point :: "QPoint \<Rightarrow> QPoint \<Rightarrow> QPoint" where
  "minus_point (QPoint ax ay) (QPoint bx by) = QPoint (ax - bx) (ay - by)"

fun manhattanLength :: "QPoint \<Rightarrow> int" where
  "manhattanLength (QPoint px py) = \<bar>px\<bar> + \<bar>py\<bar>"

text \<open>The mouse buttons of Qt are bit flags: the left button is 1.\<close>

definition LeftButton :: int where
  "LeftButton = 1"

record QMouseEvent =
  button :: int
  buttons :: int
  pos :: QPoint

text \<open>
  The attributes of a \<^verbatim>\<open>ComponentButton\<close> this program reads or writes. The dynamic
  properties \<^verbatim>\<open>category\<close> and \<^verbatim>\<open>component_name\<close> are unset (\<^verbatim>\<open>None\<close>) until
  \<^verbatim>\<open>setProperty\<close> is called; \<open>has_icon\<close> is \<^verbatim>\<open>not self.icon().isNull()\<close>; a widget is
  visible until \<^verbatim>\<open>setVisible(False)\<close>.
\<close>

record ComponentButton =
  button_data :: component
  has_icon :: bool
  toolTip :: pystr
  category :: "pystr option"
  component_name :: "pystr option"
  visible :: bool
  dragStartPosition :: "QPoint option"

definition ComponentButton_init :: "filesystem \<Rightarrow> component \<Rightarrow> pystr \<Rightarrow> ComponentButton" where
  "ComponentButton_init fs component_data icon_path =
     \<lparr>button_data = component_data,
      has_icon = path_exists fs icon_path,
      toolTip = name component_data,
      category = None,
      component_name = None,
      visible = True,
      dragStartPosition = None\<rparr>"

text \<open>
  \<^verbatim>\<open>mousePressEvent\<close>: after the handler of the base class, which touches none of the
  attributes above, a press of the left button records its position.
\<close>

definition mousePressEvent :: "ComponentButton \<Rightarrow> QMouseEvent \<Rightarrow> ComponentButton" where
  "mousePressEvent self event =
     (if button event = LeftButton then self\<lparr>dragStartPosition := Some (pos event)\<rparr>
      else self)"

text \<open>What a started drag carries: the text of its mime data, and whether it has a pixmap.\<close>

record QDrag =
  mimeText :: pystr
  hasPixmap :: bool

text \<open>
  \<^verbatim>\<open>mouseMoveEvent\<close> changes no attribute; its result here is the drag it executes, if
  any. The test \<^verbatim>\<open>not self.dragStartPosition\<close> is the truth value of the attribute:
  \<^verbatim>\<open>None\<close> is false, and PyQt5 gives \<^verbatim>\<open>QPoint\<close> the method \<^verbatim>\<open>__bool__\<close>, which is
  \<^verbatim>\<open>not isNull()\<close>, so the point (0, 0) is false as well.
\<close>

fun point_truthy :: "QPoint option \<Rightarrow> bool" where
  "point_truthy None = False"
| "point_truthy (Some p) = (\<not> isNull p)"

fun point_value :: "QPoint option \<Rightarrow> QPoint" where
  "point_value None = QPoint 0 0"
| "point_value (Some p) = p"

definition mouseMoveEvent :: "ComponentButton \<Rightarrow> QMouseEvent \<Rightarrow> QDrag option" where
  "mouseMoveEvent self event =
     (if (buttons event AND LeftButton) = 0 then None
      else if \<not> point_truthy (dragStartPosition self) then None
      else if manhattanLength (minus_point (pos event) (point_value (dragStartPosition self))) < 10
        then None
      else Some \<lparr>mimeText = object (button_data self), hasPixmap = has_icon self\<rparr>)"

text \<open>
  The pointer events that reach the handlers of a button, one after the other; the drags
  executed on the way are collected in order. (While a drag runs, \<^verbatim>\<open>drag.exec_\<close> has the
  events; they are not in the list.)
\<close>

datatype pointer_event = Press QMouseEvent | Move QMouseEvent

fun deliver :: "ComponentButton \<Rightarrow> pointer_event list \<Rightarrow> ComponentButton \<times> QDrag list" where
  "deliver self [] = (self, [])"
| "deliver self (Press event # evs) = deliver (mousePressEvent self event) evs"
| "deliver self (Move event # evs) =
     (case mouseMoveEvent self event of
        None \<Rightarrow> deliver self evs
      | Some drag \<Rightarrow> (let (self', drags) = deliver self evs in (self', drag # drags)))"

subsection \<open>The library\<close>

text \<open>
  The scroll layout holds, per category, a label and a grid of buttons. A grid cell refers
  to its button by the button's index in \<^verbatim>\<open>self.icon_buttons\<close>: the grid and that list
  share the button objects, and \<^verbatim>\<open>_filter_icons\<close> changes them through the list.
\<close>

datatype widget =
    QLabel pystr
  | GridWidget "((nat \<times> nat) \<times> nat) list"

record ComponentLibrary =
  component_data :: "component list"
  icon_buttons :: "ComponentButton list"
  scroll_layout :: "widget list"
  printed :: "py_error list"

text \<open>
  The record source as \<^verbatim>\<open>_load_components\<close> meets it: no file at the path; a file that
  \<^verbatim>\<open>open\<close> refuses; or an opened file, as the list of its items.
\<close>

datatype source = NotExists | OpenFails | Records "record_item list"

text \<open>
  \<^verbatim>\<open>_load_components\<close>. The handler \<^verbatim>\<open>except Exception\<close> takes every error of the body
  and prints it; the components appended before the error stay in the list.
\<close>

definition load_components :: "source \<Rightarrow> ComponentLibrary \<Rightarrow> ComponentLibrary" where
  "load_components src self =
     (case src of
        NotExists \<Rightarrow> self
      | OpenFails \<Rightarrow> self\<lparr>printed := printed self @ [OSError]\<rparr>
      | Records recs \<Rightarrow>
          (case load_reader recs (component_data self) of
             (None, cd) \<Rightarrow> self\<lparr>component_data := cd\<rparr>
           | (Some e, cd) \<Rightarrow> self\<lparr>component_data := cd, printed := printed self @ [e]\<rparr>))"

definition get_icon_path :: "pystr \<Rightarrow> pystr \<Rightarrow> pystr" where
  "get_icon_path parent' name' =
     (let base_path = path_join (str ''ui'') [str ''assets'', str ''png'', parent']
      in path_join base_path [name' @ str ''.png''])"

text \<open>
  The dictionary \<^verbatim>\<open>grouped\<close>, in insertion order: a new category is added at the end with
  an empty list, then the component is appended to the list of its category.
\<close>

fun group_components ::
  "component list \<Rightarrow> (pystr \<times> component list) list \<Rightarrow> (pystr \<times> component list) list" where
  "group_components [] grouped = grouped"
| "group_components (c # cs) grouped =
     (let p = parent c;
          grouped1 = (if p \<notin> set (map fst grouped) then grouped @ [(p, [])] else grouped)
      in group_components cs
           (map (\<lambda>(k, v). if k = p then (k, v @ [c]) else (k, v)) grouped1))"

text \<open>
  \<^verbatim>\<open>grouped[parent_name]\<close> for a key taken from \<^verbatim>\<open>grouped.keys()\<close>; the key is always
  present there (lemma \<open>grouped_get_keys\<close> below), the empty list stands for the lookup
  that cannot fail.
\<close>

definition grouped_get :: "(pystr \<times> component list) list \<Rightarrow> pystr \<Rightarrow> component list" where
  "grouped_get grouped k = (case map_of grouped k of None \<Rightarrow> [] | Some v \<Rightarrow> v)"

definition max_cols :: nat where
  "max_cols = 5"

text \<open>
  The inner loop of \<^verbatim>\<open>_populate_icons\<close> over the components of one category, already
  sorted: a component whose icon file exists gets a button at (row, col) of the grid, and
  the button is appended to \<^verbatim>\<open>self.icon_buttons\<close>; any other component gets nothing.
\<close>

fun place_buttons ::
  "filesystem \<Rightarrow> pystr \<Rightarrow> component list \<Rightarrow> nat \<times> nat \<Rightarrow> ((nat \<times> nat) \<times> nat) list \<Rightarrow>
   ComponentButton list \<Rightarrow> ((nat \<times> nat) \<times> nat) list \<times> ComponentButton list" where
  "place_buttons fs parent_name [] (row, col) grid btns = (grid, btns)"
| "place_buttons fs parent_name (c # cs) (row, col) grid btns =
     (let icon_path = get_icon_path parent_name (name c)
      in if path_exists fs icon_path
         then
           (let b = (ComponentButton_init fs c icon_path)
                      \<lparr>category := Some parent_name, component_name := Some (name c)\<rparr>;
                grid' = grid @ [((row, col), length btns)];
                btns' = btns @ [b]
            in if col + 1 \<ge> max_cols
               then place_buttons fs parent_name cs (row + 1, 0) grid' btns'
               else place_buttons fs parent_name cs (row, col + 1) grid' btns')
         else place_buttons fs parent_name cs (row, col) grid btns)"

text \<open>
  The sorted list of the components of a category:
  \<^verbatim>\<open>sorted(grouped[parent_name], key=lambda x: x['name'])\<close>. Python's sort is stable, and
  so is \<^const>\<open>sort_key\<close>.
\<close>

definition sorted_components :: "(pystr \<times> component list) list \<Rightarrow> pystr \<Rightarrow> component list" where
  "sorted_components grouped parent_name = sort_key name (grouped_get grouped parent_name)"

text \<open>The outer loop of \<^verbatim>\<open>_populate_icons\<close>, over the sorted categories.\<close>

fun populate_categories ::
  "filesystem \<Rightarrow> (pystr \<times> component list) list \<Rightarrow> pystr list \<Rightarrow> widget list \<Rightarrow>
   ComponentButton list \<Rightarrow> widget list \<times> ComponentButton list" where
  "populate_categories fs grouped [] layout btns = (layout, btns)"
| "populate_categories fs grouped (parent_name # ps) layout btns =
     (let (grid, btns') =
            place_buttons fs parent_name (sorted_components grouped parent_name) (0, 0) [] btns
      in populate_categories fs grouped ps (layout @ [QLabel parent_name, GridWidget grid]) btns')"

text \<open>
  \<^verbatim>\<open>_populate_icons\<close>: the widgets of the layout are given up (\<^verbatim>\<open>deleteLater\<close>), the
  list of buttons is cleared, and both are built again from \<^verbatim>\<open>self.component_data\<close>.
\<close>

definition populate_icons :: "filesystem \<Rightarrow> ComponentLibrary \<Rightarrow> ComponentLibrary" where
  "populate_icons fs self =
     (let grouped = group_components (component_data self) [];
          (layout, btns) = populate_categories fs grouped (sort (map fst grouped)) [] []
      in self\<lparr>icon_buttons := btns, scroll_layout := layout\<rparr>)"

text \<open>
  \<^verbatim>\<open>_filter_icons\<close>, with the parameter of \<open>lower\<close>: the loop over
  \<^verbatim>\<open>self.icon_buttons\<close>. \<^verbatim>\<open>.lower()\<close> on an unset
  property raises \<^verbatim>\<open>AttributeError\<close>, which leaves the loop with the buttons before it
  already updated.
\<close>

fun filter_buttons ::
  "(pystr \<Rightarrow> pystr) \<Rightarrow> pystr \<Rightarrow> ComponentButton list \<Rightarrow>
   py_error option \<times> ComponentButton list" where
  "filter_buttons unicode_lower search_text [] = (None, [])"
| "filter_buttons unicode_lower search_text (b # bs) =
     (case category b of
        None \<Rightarrow> (Some AttributeError, b # bs)
      | Some cat \<Rightarrow>
          (case component_name b of
             None \<Rightarrow> (Some AttributeError, b # bs)
           | Some component \<Rightarrow>
               (let matches = (str_in search_text (lower unicode_lower component) \<or>
                               str_in search_text (lower unicode_lower cat));
                    (e, bs') = filter_buttons unicode_lower search_text bs
                in (e, b\<lparr>visible := matches\<rparr> # bs'))))"

definition filter_icons ::
  "(pystr \<Rightarrow> pystr) \<Rightarrow> pystr \<Rightarrow> ComponentLibrary \<Rightarrow> py_error option \<times> ComponentLibrary" where
  "filter_icons unicode_lower search_text self =
     (let (e, btns) = filter_buttons unicode_lower (lower unicode_lower search_text)
                        (icon_buttons self)
      in (e, self\<lparr>icon_buttons := btns\<rparr>))"

text \<open>
  \<^verbatim>\<open>__init__\<close>: empty lists, then \<^verbatim>\<open>_load_components\<close> and \<^verbatim>\<open>_populate_icons\<close>.
\<close>

definition empty_library :: ComponentLibrary where
  "empty_library =
     \<lparr>component_data = [], icon_buttons = [], scroll_layout = [], printed = []\<rparr>"

definition ComponentLibrary_init :: "filesystem \<Rightarrow> source \<Rightarrow> ComponentLibrary" where
  "ComponentLibrary_init fs src = populate_icons fs (load_components src empty_library)"

subsection \<open>Auxiliary notions for the statements\<close>



text \<open>
  The button \<^verbatim>\<open>_populate_icons\<close> creates for a component of a category, the test it makes
  before, and the buttons of a whole category in the order of their creation.
\<close>

definition make_button :: "filesystem \<Rightarrow> pystr \<Rightarrow> component \<Rightarrow> ComponentButton" where
  "make_button fs parent_name c =
     (ComponentButton_init fs c (get_icon_path parent_name (name c)))
       \<lparr>category := Some parent_name, component_name := Some (name c)\<rparr>"

definition icon_exists :: "filesystem \<Rightarrow> pystr \<Rightarrow> component \<Rightarrow> bool" where
  "icon_exists fs parent_name c = path_exists fs (get_icon_path parent_name (name c))"

definition category_buttons ::
  "filesystem \<Rightarrow> (pystr \<times> component list) list \<Rightarrow> pystr \<Rightarrow> ComponentButton list" where
  "category_buttons fs grouped parent_name =
     map (make_button fs parent_name)
       (filter (icon_exists fs parent_name) (sorted_components grouped parent_name))"

text \<open>
  The cells of a grid filled with \<open>n\<close> buttons from position \<open>start\<close> on, row by row,
  the buttons having the indices from \<open>off\<close> on; and the widgets of a list of categories.
\<close>

definition grid_cells :: "nat \<Rightarrow> nat \<Rightarrow> nat \<Rightarrow> ((nat \<times> nat) \<times> nat) list" where
  "grid_cells start off n =
     map (\<lambda>k. (((start + k) div max_cols, (start + k) mod max_cols), off + k)) [0..<n]"

fun category_widgets ::
  "filesystem \<Rightarrow> (pystr \<times> component list) list \<Rightarrow> nat \<Rightarrow> pystr list \<Rightarrow> widget list" where
  "category_widgets fs grouped off [] = []"
| "category_widgets fs grouped off (p # ps) =
     QLabel p # GridWidget (grid_cells 0 off (length (category_buttons fs grouped p)))
       # category_widgets fs grouped (off + length (category_buttons fs grouped p)) ps"

text \<open>The labels of a layout, and its grids, in the order of display.\<close>

fun layout_labels :: "widget list \<Rightarrow> pystr list" where
  "layout_labels [] = []"
| "layout_labels (QLabel s # ws) = s # layout_labels ws"
| "layout_labels (GridWidget g # ws) = layout_labels ws"

fun layout_grids :: "widget list \<Rightarrow> ((nat \<times> nat) \<times> nat) list list" where
  "layout_grids [] = []"
| "layout_grids (QLabel s # ws) = layout_grids ws"
| "layout_grids (GridWidget g # ws) = g # layout_grids ws"

section \<open>Loading the component table\<close>

subsection \<open>Rows of a table with the three field names\<close>

lemma dict_row_dom:
  "dom (dict_row fieldnames rec) = set fieldnames"
proof -
  let ?vals = "map Some rec @ replicate (length fieldnames - length rec) None"
  have len: "length fieldnames \<le> length ?vals" by simp
  have "dom (dict_row fieldnames rec) = fst ` set (zip fieldnames ?vals)"
    by (simp add: dict_row_def dom_map_of_conv_image_fst)
  also have "\<dots> = set (map fst (zip fieldnames ?vals))" by simp
  also have "map fst (zip fieldnames ?vals) = fieldnames"
    using len by (simp add: map_fst_zip_take min_def)
  finally show ?thesis .
qed

lemma getitem_dict_row:
  assumes "key \<in> set fieldnames"
  shows "\<exists>v. getitem (dict_row fieldnames rec) key = Inr v"
proof -
  from assms have "key \<in> dom (dict_row fieldnames rec)" by (simp add: dict_row_dom)
  then obtain v where "dict_row fieldnames rec key = Some v" by blast
  then show ?thesis by (simp add: getitem_def)
qed

lemma load_row_three_fields:
  assumes "r (str ''parent'') = Some p" "r (str ''name'') = Some n" "r (str ''object'') = Some ob"
  shows "load_row r =
    (if truthy p \<and> truthy n
     then Inr (Some \<lparr>parent = strip_value p, name = strip_value n, object = strip_value ob\<rparr>)
     else Inr None)"
  using assms by (cases ob) (auto simp: load_row_def getitem_def strip_def)



text \<open>One step of the loop, by what reading the item gives.\<close>

lemma load_records_raise:
  assumes "reader_next item = Inl e"
  shows "load_records fieldnames (item # items) acc = (Some e, acc)"
  using assms by simp







subsection \<open>What \<^verbatim>\<open>strip\<close> removes\<close>

lemma strip_whitespace_only:
  assumes "list_all isspace s"
  shows "strip s = []"
proof -
  have d: "dropWhile isspace s = []"
    using assms by (induction s) simp_all
  show ?thesis unfolding strip_def d by simp
qed

lemma strip_decompose:
  "\<exists>pre post. s = pre @ strip s @ post \<and> list_all isspace pre \<and> list_all isspace post"
proof -
  let ?t = "dropWhile isspace s"
  have 1: "s = takeWhile isspace s @ ?t" by simp
  have 2: "rev ?t = takeWhile isspace (rev ?t) @ dropWhile isspace (rev ?t)" by simp
  have "?t = rev (dropWhile isspace (rev ?t)) @ rev (takeWhile isspace (rev ?t))"
    by (metis 2 rev_append rev_rev_ident)
  then have "s = takeWhile isspace s @ strip s @ rev (takeWhile isspace (rev ?t))"
    using 1 by (simp add: strip_def)
  moreover have "list_all isspace (takeWhile isspace s)"
    by (simp add: list_all_iff) (meson set_takeWhileD)
  moreover have "list_all isspace (rev (takeWhile isspace (rev ?t)))"
    by (simp add: list_all_iff) (meson set_takeWhileD)
  ultimately show ?thesis by blast
qed

lemma strip_ends:
  "strip s \<noteq> [] \<Longrightarrow> \<not> isspace (hd (strip s)) \<and> \<not> isspace (last (strip s))"
proof -
  assume ne: "strip s \<noteq> []"
  let ?t = "dropWhile isspace s"
  let ?u = "dropWhile isspace (rev ?t)"
  have u: "?u \<noteq> []" using ne by (simp add: strip_def)
  then have hu: "\<not> isspace (hd ?u)" by (rule hd_dropWhile)
  have l: "last (strip s) = hd ?u" using u by (simp add: strip_def last_rev)
  have "?t \<noteq> []"
  proof
    assume a: "?t = []"
    have "?u = []" unfolding a by simp
    with u show False by simp
  qed
  then have ht: "\<not> isspace (hd ?t)" by (rule hd_dropWhile)
  have "rev ?t = takeWhile isspace (rev ?t) @ ?u" by simp
  then have "?t = rev ?u @ rev (takeWhile isspace (rev ?t))"
    by (metis rev_append rev_rev_ident)
  then have "hd ?t = hd (rev ?u)" using u by (metis hd_append2 rev_is_Nil_conv)
  then have "hd (strip s) = hd ?t" by (simp add: strip_def)
  with ht hu l show ?thesis by simp
qed

lemma isspace_code_points:
  "isspace c \<longleftrightarrow>
     c \<in> set ([0x9..<0xE] @ [0x1C..<0x21] @ [0x85, 0xA0, 0x1680] @ [0x2000..<0x200B] @
       [0x2028, 0x2029, 0x202F, 0x205F, 0x3000])"
  unfolding isspace_def set_append set_upt by auto

subsection \<open>Claims on the loader\<close>

lemma populate_icons_empty:
  "component_data self = [] \<Longrightarrow>
   populate_icons fs self = self\<lparr>icon_buttons := [], scroll_layout := []\<rparr>"
  by (simp add: populate_icons_def)

text \<open>
  Claim C8. When the record source does not exist, or exists and cannot be opened,
  \<^verbatim>\<open>_load_components\<close> returns with the component list as it was, and the library built
  by \<^verbatim>\<open>__init__\<close> is the empty one: no component, no button, no widget. The function
  has no error result: the missing file is a plain return, and the error of \<^verbatim>\<open>open\<close> ends
  in the handler, which prints it.
\<close>

theorem source_unavailable_empty:
  assumes "src = NotExists \<or> src = OpenFails"
  shows "component_data (load_components src self) = component_data self
    \<and> ComponentLibrary_init fs src =
        empty_library\<lparr>printed := (if src = OpenFails then [OSError] else [])\<rparr>"
  using assms
  by (auto simp: load_components_def ComponentLibrary_init_def empty_library_def
      populate_icons_empty)

theorem source_unavailable_empty_witness:
  "component_data (load_components OpenFails empty_library) = []
    \<and> ComponentLibrary_init {} OpenFails = empty_library\<lparr>printed := [OSError]\<rparr>"
  using source_unavailable_empty [of OpenFails empty_library "{}"]
  by (simp add: empty_library_def)

text \<open>
  Claim C9. A row whose category and name are non-empty strings is accepted, and the
  stored category, name and payload are the stripped fields (a missing payload is the
  empty string). The test for emptiness is on the fields as read, before stripping: a name
  that is non-empty and all whitespace passes it and is stored as the empty string.
  Stripping takes a string apart into whitespace, the result, and whitespace, and the
  result neither starts nor ends with whitespace; the whitespace characters are the 29
  code points of Python.
\<close>

theorem load_row_strips_after_check:
  assumes "r (str ''parent'') = Some (Some p)" and "p \<noteq> []"
    and "r (str ''name'') = Some (Some n)" and "n \<noteq> []"
    and "r (str ''object'') = Some ob"
  shows "load_row r =
      Inr (Some \<lparr>parent = strip p, name = strip n, object = strip_value ob\<rparr>)
    \<and> (list_all isspace n \<longrightarrow> strip n = [])
    \<and> (\<forall>s. (\<exists>pre post. s = pre @ strip s @ post \<and> list_all isspace pre \<and> list_all isspace post)
          \<and> (strip s = [] \<or> \<not> isspace (hd (strip s)) \<and> \<not> isspace (last (strip s))))
    \<and> (\<forall>c. isspace c \<longleftrightarrow>
          c \<in> set ([0x9..<0xE] @ [0x1C..<0x21] @ [0x85, 0xA0, 0x1680] @ [0x2000..<0x200B] @
            [0x2028, 0x2029, 0x202F, 0x205F, 0x3000]))"
proof -
  have 1: "load_row r =
      Inr (Some \<lparr>parent = strip p, name = strip n, object = strip_value ob\<rparr>)"
    using assms by (simp add: load_row_three_fields)
  have 2: "list_all isspace n \<longrightarrow> strip n = []"
    by (simp add: strip_whitespace_only)
  have 3: "(\<exists>pre post. s = pre @ strip s @ post \<and> list_all isspace pre \<and> list_all isspace post)
          \<and> (strip s = [] \<or> \<not> isspace (hd (strip s)) \<and> \<not> isspace (last (strip s)))" for s
    using strip_decompose [of s] strip_ends [of s] by blast
  from 1 2 3 isspace_code_points show ?thesis by blast
qed

theorem load_row_strips_after_check_witness:
  "load_row (dict_row [str ''parent'', str ''name'', str ''object'']
      [[0xA0] @ str ''Inputs'' @ [0x3000, 0x20], [0xA0, 0x2003, 0x20],
       [0x200B] @ str ''x'' @ [0x9]])
     = Inr (Some \<lparr>parent = str ''Inputs'', name = [], object = [0x200B] @ str ''x''\<rparr>)"
proof -
  let ?r = "dict_row [str ''parent'', str ''name'', str ''object'']
      [[0xA0] @ str ''Inputs'' @ [0x3000, 0x20], [0xA0, 0x2003, 0x20],
       [0x200B] @ str ''x'' @ [0x9]]"
  have p: "?r (str ''parent'') = Some (Some ([0xA0] @ str ''Inputs'' @ [0x3000, 0x20]))"
    and n: "?r (str ''name'') = Some (Some [0xA0, 0x2003, 0x20])"
    and ob: "?r (str ''object'') = Some (Some ([0x200B] @ str ''x'' @ [0x9]))"
    by (simp_all add: dict_row_def str_def)
  have "load_row ?r = Inr (Some \<lparr>parent = strip ([0xA0] @ str ''Inputs'' @ [0x3000, 0x20]),
      name = strip [0xA0, 0x2003, 0x20],
      object = strip_value (Some ([0x200B] @ str ''x'' @ [0x9]))\<rparr>)"
    by (rule load_row_strips_after_check [OF p _ n _ ob, THEN conjunct1]) simp_all
  then show ?thesis
    by (simp add: strip_def isspace_def str_def)
qed




text \<open>
  Claim C5. The row with category \<^verbatim>\<open>A\<close>, the name of one space and payload \<^verbatim>\<open>v\<close>
  is accepted, and the component list then holds a component whose name is empty.
\<close>

theorem whitespace_name_stored_empty:
  "component_data (load_components
      (Records [Inr [str ''parent'', str ''name'', str ''object''],
                Inr [str ''A'', str '' '', str ''v'']]) empty_library)
   = [\<lparr>parent = str ''A'', name = [], object = str ''v''\<rparr>]"
  by (simp add: load_components_def reader_next_def field_size_limit_def empty_library_def
      dict_row_def load_row_def getitem_def strip_def isspace_def str_def)

section \<open>Grouping and rendering\<close>

subsection \<open>The loops of \<^verbatim>\<open>_populate_icons\<close> in closed form\<close>

lemma grid_cells_Suc:
  "grid_cells start off (Suc n) =
     ((start div max_cols, start mod max_cols), off) # grid_cells (Suc start) (Suc off) n"
proof -
  have "[0..<Suc n] = 0 # map Suc [0..<n]"
    by (simp add: upt_conv_Cons map_Suc_upt del: upt_Suc)
  then show ?thesis
    by (simp add: grid_cells_def comp_def del: upt_Suc)
qed

lemma place_buttons_eq:
  assumes "col < max_cols"
  shows "place_buttons fs p cs (row, col) grid btns =
    (grid @ grid_cells (row * max_cols + col) (length btns)
        (length (filter (icon_exists fs p) cs)),
     btns @ map (make_button fs p) (filter (icon_exists fs p) cs))"
  using assms
proof (induction cs arbitrary: row col grid btns)
  case Nil
  then show ?case by (simp add: grid_cells_def)
next
  case (Cons c cs)
  let ?vis = "filter (icon_exists fs p) cs"
  let ?s = "row * max_cols + col"
  show ?case
  proof (cases "icon_exists fs p c")
    case False
    then have "place_buttons fs p (c # cs) (row, col) grid btns =
        place_buttons fs p cs (row, col) grid btns"
      by (simp add: icon_exists_def)
    with False Cons.IH [OF Cons.prems] show ?thesis by simp
  next
    case True
    define row' where "row' = (if col + 1 \<ge> max_cols then row + 1 else row)"
    define col' where "col' = (if col + 1 \<ge> max_cols then 0 else col + 1)"
    have col': "col' < max_cols" by (simp add: col'_def max_cols_def)
    have start: "row' * max_cols + col' = Suc ?s"
      using Cons.prems by (auto simp: row'_def col'_def)
    have step: "place_buttons fs p (c # cs) (row, col) grid btns =
        place_buttons fs p cs (row', col') (grid @ [((row, col), length btns)])
          (btns @ [make_button fs p c])"
      using True by (simp add: icon_exists_def make_button_def row'_def col'_def)
    have here: "(?s div max_cols, ?s mod max_cols) = (row, col)"
      using Cons.prems by (simp add: max_cols_def)
    have cells: "grid_cells ?s (length btns) (Suc (length ?vis)) =
        ((row, col), length btns) # grid_cells (Suc ?s) (Suc (length btns)) (length ?vis)"
      using here by (simp only: grid_cells_Suc prod.inject)
    have vis: "filter (icon_exists fs p) (c # cs) = c # ?vis"
      using True by simp
    have "place_buttons fs p (c # cs) (row, col) grid btns =
        ((grid @ [((row, col), length btns)]) @
            grid_cells (Suc ?s) (Suc (length btns)) (length ?vis),
         (btns @ [make_button fs p c]) @ map (make_button fs p) ?vis)"
      unfolding step using Cons.IH [OF col', of row'] by (simp add: start)
    then show ?thesis
      unfolding vis by (simp add: cells)
  qed
qed

lemma populate_categories_eq:
  "populate_categories fs grouped ps layout btns =
     (layout @ category_widgets fs grouped (length btns) ps,
      btns @ concat (map (category_buttons fs grouped) ps))"
proof (induction ps arbitrary: layout btns)
  case Nil
  then show ?case by simp
next
  case (Cons p ps)
  have "0 < max_cols" by (simp add: max_cols_def)
  from place_buttons_eq [OF this, of fs p "sorted_components grouped p" 0 "[]" btns]
  have pb: "place_buttons fs p (sorted_components grouped p) (0, 0) [] btns =
      (grid_cells 0 (length btns) (length (category_buttons fs grouped p)),
       btns @ category_buttons fs grouped p)"
    by (simp add: category_buttons_def)
  show ?case
    by (simp add: pb Cons.IH)
qed

subsection \<open>The dictionary of categories\<close>

lemma grouped_get_append_new:
  "grouped_get (grouped @ [(k, [])]) k' = grouped_get grouped k'"
proof (cases "map_of grouped k'")
  case None
  then show ?thesis by (simp add: grouped_get_def map_add_def)
next
  case (Some v)
  then show ?thesis by (simp add: grouped_get_def map_add_def)
qed

lemma map_of_update:
  "map_of (map (\<lambda>(k, v). if k = p then (k, v @ [c]) else (k, v)) grouped) k' =
     (if k' = p then map_option (\<lambda>v. v @ [c]) (map_of grouped k') else map_of grouped k')"
  by (induction grouped) auto

lemma grouped_get_update:
  "grouped_get (map (\<lambda>(k, v). if k = p then (k, v @ [c]) else (k, v)) grouped) k' =
     (if k' = p \<and> p \<in> set (map fst grouped) then grouped_get grouped k' @ [c]
      else grouped_get grouped k')"
proof (cases "map_of grouped k'")
  case None
  then have "k' \<notin> set (map fst grouped)" by (simp add: map_of_eq_None_iff)
  with None show ?thesis by (auto simp: grouped_get_def map_of_update)
next
  case (Some v)
  then have "k' \<in> set (map fst grouped)"
    by (metis map_of_eq_None_iff option.distinct(1) set_map)
  with Some show ?thesis by (auto simp: grouped_get_def map_of_update)
qed

lemma keys_update:
  "map fst (map (\<lambda>(k, v). if k = p then (k, v @ [c]) else (k, v)) grouped) = map fst grouped"
  by (induction grouped) auto

lemma group_components_keys:
  "distinct (map fst grouped) \<Longrightarrow>
   distinct (map fst (group_components cs grouped)) \<and>
   set (map fst (group_components cs grouped)) = set (map fst grouped) \<union> parent ` set cs"
proof (induction cs arbitrary: grouped)
  case Nil
  then show ?case by simp
next
  case (Cons c cs)
  let ?g1 = "if parent c \<notin> set (map fst grouped) then grouped @ [(parent c, [])] else grouped"
  let ?g2 = "map (\<lambda>(k, v). if k = parent c then (k, v @ [c]) else (k, v)) ?g1"
  have keys: "map fst ?g2 = map fst ?g1" by (rule keys_update)
  have d: "distinct (map fst ?g2)" unfolding keys using Cons.prems by simp
  have s: "set (map fst ?g2) = insert (parent c) (set (map fst grouped))"
    unfolding keys by auto
  have "group_components (c # cs) grouped = group_components cs ?g2"
    by (simp add: Let_def)
  with Cons.IH [OF d] s show ?case by auto
qed

lemma group_components_get:
  "grouped_get (group_components cs grouped) k =
     grouped_get grouped k @ filter (\<lambda>c. parent c = k) cs"
proof (induction cs arbitrary: grouped)
  case Nil
  then show ?case by simp
next
  case (Cons c cs)
  let ?g1 = "if parent c \<notin> set (map fst grouped) then grouped @ [(parent c, [])] else grouped"
  let ?g2 = "map (\<lambda>(k, v). if k = parent c then (k, v @ [c]) else (k, v)) ?g1"
  have g1: "grouped_get ?g1 k = grouped_get grouped k"
    by (simp add: grouped_get_append_new)
  have in1: "parent c \<in> set (map fst ?g1)" by simp
  have "grouped_get ?g2 k = (if k = parent c then grouped_get ?g1 k @ [c]
      else grouped_get ?g1 k)"
    unfolding grouped_get_update using in1 by (simp only: simp_thms)
  then have g2: "grouped_get ?g2 k = (if k = parent c then grouped_get grouped k @ [c]
      else grouped_get grouped k)"
    unfolding g1 .
  have eq: "group_components (c # cs) grouped = group_components cs ?g2"
    by (simp add: Let_def)
  have "grouped_get (group_components cs ?g2) k =
      grouped_get ?g2 k @ filter (\<lambda>c. parent c = k) cs"
    by (rule Cons.IH)
  also have "\<dots> = grouped_get grouped k @ filter (\<lambda>c. parent c = k) (c # cs)"
    unfolding g2 by simp
  finally show ?case unfolding eq .
qed

lemma group_components_empty:
  "distinct (map fst (group_components cs []))"
  "set (map fst (group_components cs [])) = parent ` set cs"
  "grouped_get (group_components cs []) k = filter (\<lambda>c. parent c = k) cs"
  using group_components_keys [of "[]" cs] group_components_get [of cs "[]" k]
  by (simp_all add: grouped_get_def)

text \<open>The lookup in \<^verbatim>\<open>grouped\<close> of a key of \<^verbatim>\<open>grouped\<close> never fails.\<close>

lemma grouped_get_keys:
  "k \<in> set (map fst grouped) \<Longrightarrow> \<exists>v. map_of grouped k = Some v"
  by (metis map_of_eq_None_iff not_Some_eq set_map)

lemma sorted_components_eq:
  "sorted_components (group_components cs []) k = sort_key name (filter (\<lambda>c. parent c = k) cs)"
  by (simp add: sorted_components_def group_components_empty)

lemma populate_icons_eq:
  "populate_icons fs self =
     self\<lparr>icon_buttons :=
            concat (map (category_buttons fs (group_components (component_data self) []))
              (sort (map fst (group_components (component_data self) [])))),
          scroll_layout :=
            category_widgets fs (group_components (component_data self) []) 0
              (sort (map fst (group_components (component_data self) [])))\<rparr>"
  by (simp add: populate_icons_def populate_categories_eq Let_def)

subsection \<open>Buttons and grids\<close>

lemma category_buttons_data:
  "map button_data (category_buttons fs (group_components cd []) p) =
     filter (icon_exists fs p) (sort_key name (filter (\<lambda>c. parent c = p) cd))"
  by (simp add: category_buttons_def sorted_components_eq make_button_def
      ComponentButton_init_def comp_def)

lemma sum_filter_keys:
  "distinct ks \<Longrightarrow>
   (\<Sum>p\<leftarrow>ks. filter_mset (\<lambda>c. parent c = p \<and> Q c) M) =
     filter_mset (\<lambda>c. parent c \<in> set ks \<and> Q c) M"
proof (induction ks)
  case Nil
  then show ?case by simp
next
  case (Cons k ks)
  then have "(\<Sum>p\<leftarrow>k # ks. filter_mset (\<lambda>c. parent c = p \<and> Q c) M) =
      filter_mset (\<lambda>c. parent c = k \<and> Q c) M +
      filter_mset (\<lambda>c. parent c \<in> set ks \<and> Q c) M"
    by simp
  also have "\<dots> = filter_mset (\<lambda>c. parent c \<in> set (k # ks) \<and> Q c) M"
    using Cons.prems by (intro multiset_eqI) auto
  finally show ?case .
qed

lemma buttons_mset:
  "mset (map button_data (icon_buttons (populate_icons fs self))) =
     filter_mset (\<lambda>c. path_exists fs (get_icon_path (parent c) (name c)))
       (mset (component_data self))"
proof -
  let ?cd = "component_data self"
  let ?g = "group_components ?cd []"
  let ?ks = "sort (map fst ?g)"
  let ?Q = "\<lambda>c. path_exists fs (get_icon_path (parent c) (name c))"
  have d: "distinct ?ks" and ks: "set ?ks = parent ` set ?cd"
    using group_components_empty(1,2) [of ?cd] by simp_all
  have one: "mset (map button_data (category_buttons fs ?g p)) =
      filter_mset (\<lambda>c. parent c = p \<and> ?Q c) (mset ?cd)" for p
  proof -
    have "mset (map button_data (category_buttons fs ?g p)) =
        filter_mset (icon_exists fs p) (filter_mset (\<lambda>c. parent c = p) (mset ?cd))"
      by (simp add: category_buttons_data)
    also have "\<dots> = filter_mset (\<lambda>c. parent c = p \<and> ?Q c) (mset ?cd)"
      unfolding filter_filter_mset
      by (rule filter_mset_cong) (auto simp: icon_exists_def)
    finally show ?thesis .
  qed
  have "mset (map button_data (icon_buttons (populate_icons fs self))) =
      (\<Sum>p\<leftarrow>?ks. mset (map button_data (category_buttons fs ?g p)))"
    by (simp add: populate_icons_eq map_concat mset_concat comp_def)
  also have "\<dots> = (\<Sum>p\<leftarrow>?ks. filter_mset (\<lambda>c. parent c = p \<and> ?Q c) (mset ?cd))"
    by (simp only: one)
  also have "\<dots> = filter_mset (\<lambda>c. parent c \<in> set ?ks \<and> ?Q c) (mset ?cd)"
    by (rule sum_filter_keys [OF d])
  also have "\<dots> = filter_mset ?Q (mset ?cd)"
  proof (rule filter_mset_cong [OF refl])
    fix c assume "c \<in># mset ?cd"
    then have "parent c \<in> set ?ks" unfolding ks by simp
    then show "(parent c \<in> set ?ks \<and> ?Q c) = ?Q c" by simp
  qed
  finally show ?thesis .
qed

lemma grid_cells_deref:
  assumes "length pre = off"
  shows "map (\<lambda>(pos, i). (pre @ bs @ post) ! i) (grid_cells start off (length bs)) = bs"
proof -
  have "map (\<lambda>(pos, i). (pre @ bs @ post) ! i) (grid_cells start off (length bs)) =
      map (\<lambda>k. (pre @ bs @ post) ! (off + k)) [0..<length bs]"
    by (simp add: grid_cells_def comp_def)
  also have "\<dots> = map (\<lambda>k. bs ! k) [0..<length bs]"
    using assms by (intro map_cong) (auto simp: nth_append)
  also have "\<dots> = bs" by (rule map_nth)
  finally show ?thesis .
qed

lemma category_widgets_deref:
  assumes "length pre = off"
  shows "map (map (\<lambda>(pos, i). (pre @ concat (map (category_buttons fs g) ps) @ post) ! i))
      (layout_grids (category_widgets fs g off ps)) = map (category_buttons fs g) ps"
  using assms
proof (induction ps arbitrary: pre off)
  case Nil
  then show ?case by simp
next
  case (Cons p ps)
  let ?bs = "category_buttons fs g p"
  let ?rest = "concat (map (category_buttons fs g) ps)"
  have len: "length (pre @ ?bs) = off + length ?bs" using Cons.prems by simp
  have head: "map (\<lambda>(pos, i). (pre @ ?bs @ (?rest @ post)) ! i)
      (grid_cells 0 off (length ?bs)) = ?bs"
    by (rule grid_cells_deref [OF Cons.prems])
  have tail: "map (map (\<lambda>(pos, i). ((pre @ ?bs) @ ?rest @ post) ! i))
      (layout_grids (category_widgets fs g (off + length ?bs) ps)) = map (category_buttons fs g) ps"
    by (rule Cons.IH [OF len])
  show ?case using head tail by simp
qed

lemma category_widgets_labels:
  "layout_labels (category_widgets fs g off ps) = ps"
  by (induction ps arbitrary: off) simp_all

lemma category_widgets_positions:
  "\<forall>grid \<in> set (layout_grids (category_widgets fs g off ps)).
     map fst grid = map (\<lambda>k. (k div max_cols, k mod max_cols)) [0..<length grid]"
  by (induction ps arbitrary: off) (auto simp: grid_cells_def comp_def)

lemma category_widgets_refs:
  "concat (map (map snd) (layout_grids (category_widgets fs g off ps))) =
     [off..<off + length (concat (map (category_buttons fs g) ps))]"
proof (induction ps arbitrary: off)
  case Nil
  then show ?case by simp
next
  case (Cons p ps)
  let ?n = "length (category_buttons fs g p)"
  have "map (\<lambda>k. off + k) [0..<m] = [off..<off + m]" for m
    by (induction m) simp_all
  then have "map snd (grid_cells 0 off ?n) = [off..<off + ?n]"
    by (simp add: grid_cells_def comp_def)
  moreover have "[off..<off + ?n] @ [off + ?n..<off + ?n + m] = [off..<off + (?n + m)]" for m
    by (metis add.assoc le_add1 upt_add_eq_append)
  ultimately show ?case by (simp add: Cons.IH)
qed


lemma category_buttons_fields:
  assumes "b \<in> set (category_buttons fs (group_components cd []) p)"
  shows "category b = Some (parent (button_data b)) \<and>
    component_name b = Some (name (button_data b)) \<and> has_icon b \<and> visible b \<and>
    dragStartPosition b = None \<and> button_data b \<in> set cd"
proof -
  from assms obtain c where c: "c \<in> set cd" "parent c = p" "icon_exists fs p c"
    and b: "b = make_button fs p c"
    by (auto simp: category_buttons_def sorted_components_eq)
  show ?thesis
    using c by (simp add: b make_button_def ComponentButton_init_def icon_exists_def)
qed

lemma populate_icons_fields:
  assumes "b \<in> set (icon_buttons (populate_icons fs self))"
  shows "category b = Some (parent (button_data b)) \<and>
    component_name b = Some (name (button_data b)) \<and> has_icon b \<and> visible b \<and>
    dragStartPosition b = None \<and> button_data b \<in> set (component_data self)"
proof -
  from assms obtain p where
    "b \<in> set (category_buttons fs (group_components (component_data self) []) p)"
    by (auto simp: populate_icons_eq)
  then show ?thesis by (rule category_buttons_fields)
qed

lemma category_buttons_names_sorted:
  "sorted (map (\<lambda>b. name (button_data b)) (category_buttons fs grouped p))"
proof -
  have "map (\<lambda>b. name (button_data b)) (category_buttons fs grouped p) =
      map name (filter (icon_exists fs p) (sorted_components grouped p))"
    by (simp add: category_buttons_def make_button_def ComponentButton_init_def comp_def)
  moreover have "sorted (map name (sorted_components grouped p))"
    by (simp add: sorted_components_def)
  ultimately show ?thesis by (simp add: sorted_filter)
qed

lemma populate_icons_grid_sorted:
  assumes "grid \<in> set (layout_grids (scroll_layout (populate_icons fs self)))"
  shows "sorted (map (\<lambda>(pos, i). name (button_data (icon_buttons (populate_icons fs self) ! i))) grid)"
proof -
  let ?g = "group_components (component_data self) []"
  let ?ks = "sort (map fst ?g)"
  let ?btns = "icon_buttons (populate_icons fs self)"
  have btns: "?btns = [] @ concat (map (category_buttons fs ?g) ?ks) @ []"
    by (simp add: populate_icons_eq)
  have "map (map (\<lambda>(pos, i). ?btns ! i)) (layout_grids (category_widgets fs ?g 0 ?ks)) =
      map (category_buttons fs ?g) ?ks"
    unfolding btns by (rule category_widgets_deref) simp
  moreover have "grid \<in> set (layout_grids (category_widgets fs ?g 0 ?ks))"
    using assms by (simp add: populate_icons_eq)
  ultimately have "map (\<lambda>(pos, i). ?btns ! i) grid \<in> set (map (category_buttons fs ?g) ?ks)"
    by (metis (no_types, lifting) image_eqI list.set_map)
  then obtain p where p: "map (\<lambda>(pos, i). ?btns ! i) grid = category_buttons fs ?g p"
    by auto
  have "map (\<lambda>(pos, i). name (button_data (?btns ! i))) grid =
      map (\<lambda>b. name (button_data b)) (map (\<lambda>(pos, i). ?btns ! i) grid)"
    by (simp add: comp_def case_prod_unfold)
  then show ?thesis
    unfolding p by (simp only: category_buttons_names_sorted)
qed

subsection \<open>Claims on the catalog and the palette\<close>

text \<open>
  Claim C6. The buttons of the palette are, as a multiset, the loaded components whose icon
  file exists: such a component has exactly one button, a component whose icon file does
  not exist has none. Every button is in exactly one grid cell, carries the category and
  name of its component as properties, has an icon and is visible.
\<close>

theorem one_button_per_entry_with_icon:
  "mset (map button_data (icon_buttons (populate_icons fs self))) =
     filter_mset (\<lambda>c. path_exists fs (get_icon_path (parent c) (name c)))
       (mset (component_data self))
   \<and> concat (map (map snd) (layout_grids (scroll_layout (populate_icons fs self)))) =
       [0..<length (icon_buttons (populate_icons fs self))]
   \<and> (\<forall>b \<in> set (icon_buttons (populate_icons fs self)).
        category b = Some (parent (button_data b)) \<and>
        component_name b = Some (name (button_data b)) \<and> has_icon b \<and> visible b)"
proof (intro conjI ballI)
  show "mset (map button_data (icon_buttons (populate_icons fs self))) =
     filter_mset (\<lambda>c. path_exists fs (get_icon_path (parent c) (name c)))
       (mset (component_data self))"
    by (rule buttons_mset)
  show "concat (map (map snd) (layout_grids (scroll_layout (populate_icons fs self)))) =
       [0..<length (icon_buttons (populate_icons fs self))]"
    using category_widgets_refs [of fs _ 0] by (simp add: populate_icons_eq)
qed (simp_all add: populate_icons_fields)

theorem one_button_per_entry_with_icon_witness:
  "mset (map button_data (icon_buttons (populate_icons {str ''ui/assets/png/A/X.png''}
      (empty_library\<lparr>component_data :=
        [\<lparr>parent = str ''A'', name = str ''Y'', object = str ''w''\<rparr>,
         \<lparr>parent = str ''A'', name = str ''X'', object = str ''v''\<rparr>]\<rparr>)))) =
    {#\<lparr>parent = str ''A'', name = str ''X'', object = str ''v''\<rparr>#}"
  using one_button_per_entry_with_icon [of "{str ''ui/assets/png/A/X.png''}"
      "empty_library\<lparr>component_data :=
        [\<lparr>parent = str ''A'', name = str ''Y'', object = str ''w''\<rparr>,
         \<lparr>parent = str ''A'', name = str ''X'', object = str ''v''\<rparr>]\<rparr>"]
  by (simp add: path_exists_def get_icon_path_def path_join_def join2_def str_def)

lemma catalog_mset:
  "mset (concat (map (sorted_components (group_components cd []))
      (sort (map fst (group_components cd []))))) = mset cd"
proof -
  let ?g = "group_components cd []"
  let ?ks = "sort (map fst ?g)"
  have d: "distinct ?ks" and ks: "set ?ks = parent ` set cd"
    using group_components_empty(1,2) [of cd] by simp_all
  have "mset (concat (map (sorted_components ?g) ?ks)) =
      (\<Sum>p\<leftarrow>?ks. filter_mset (\<lambda>c. parent c = p \<and> True) (mset cd))"
    by (simp add: mset_concat comp_def sorted_components_eq)
  also have "\<dots> = filter_mset (\<lambda>c. parent c \<in> set ?ks \<and> True) (mset cd)"
    by (rule sum_filter_keys [OF d])
  also have "\<dots> = mset cd"
    unfolding ks by (simp add: filter_mset_eq_conv)
  finally show ?thesis .
qed

text \<open>
  Claim C1, as the code has it. Nothing removes a duplicate: the sorted list of a category
  holds, for every name, exactly the loaded components of that category and name, in the
  order in which they were loaded, and the lists of all categories together hold exactly
  the loaded components, each as often as it was loaded. Two rows of one identity give two
  entries, the earlier row first.
\<close>

theorem duplicate_rows_all_kept:
  "filter (\<lambda>e. name e = n) (sorted_components (group_components cd []) c) =
     filter (\<lambda>e. parent e = c \<and> name e = n) cd
   \<and> mset (concat (map (sorted_components (group_components cd []))
        (sort (map fst (group_components cd []))))) = mset cd"
proof
  have "filter (\<lambda>e. name e = n) (sort_key name (filter (\<lambda>e. parent e = c) cd)) =
      filter (\<lambda>e. name e = n) (filter (\<lambda>e. parent e = c) cd)"
    by (rule sort_key_stable)
  then show "filter (\<lambda>e. name e = n) (sorted_components (group_components cd []) c) =
     filter (\<lambda>e. parent e = c \<and> name e = n) cd"
    by (simp add: sorted_components_eq conj_commute)
  show "mset (concat (map (sorted_components (group_components cd []))
        (sort (map fst (group_components cd []))))) = mset cd"
    by (rule catalog_mset)
qed

theorem duplicate_rows_all_kept_witness:
  "filter (\<lambda>e. name e = str ''X'')
      (sorted_components
        (group_components
          [\<lparr>parent = str ''A'', name = str ''X'', object = str ''v1''\<rparr>,
           \<lparr>parent = str ''A'', name = str ''X'', object = str ''v2''\<rparr>] []) (str ''A'')) =
    [\<lparr>parent = str ''A'', name = str ''X'', object = str ''v1''\<rparr>,
     \<lparr>parent = str ''A'', name = str ''X'', object = str ''v2''\<rparr>]"
  using duplicate_rows_all_kept [of "(str ''X'')"
      "[\<lparr>parent = str ''A'', name = str ''X'', object = str ''v1''\<rparr>,
        \<lparr>parent = str ''A'', name = str ''X'', object = str ''v2''\<rparr>]" "(str ''A'')"]
  by (simp add: str_def)

text \<open>
  The claim as stated fails on the rows (A, X, v1) and (A, X, v2): both are loaded, and the
  category A holds both.
\<close>

theorem duplicate_rows_two_entries:
  "component_data (load_components
      (Records [Inr [str ''parent'', str ''name'', str ''object''],
         Inr [str ''A'', str ''X'', str ''v1''], Inr [str ''A'', str ''X'', str ''v2'']])
      empty_library) =
    [\<lparr>parent = str ''A'', name = str ''X'', object = str ''v1''\<rparr>,
     \<lparr>parent = str ''A'', name = str ''X'', object = str ''v2''\<rparr>]
   \<and> group_components
      [\<lparr>parent = str ''A'', name = str ''X'', object = str ''v1''\<rparr>,
       \<lparr>parent = str ''A'', name = str ''X'', object = str ''v2''\<rparr>] [] =
    [(str ''A'', [\<lparr>parent = str ''A'', name = str ''X'', object = str ''v1''\<rparr>,
              \<lparr>parent = str ''A'', name = str ''X'', object = str ''v2''\<rparr>])]"
  by (simp add: load_components_def reader_next_def field_size_limit_def empty_library_def
      dict_row_def load_row_def getitem_def strip_def isspace_def Let_def str_def)

text \<open>
  Claim C3. The category labels of the layout are in ascending order of the strings, with
  no label twice, and they are the categories of the loaded components. In every grid the
  names of the buttons are in ascending order, and the buttons fill the grid row by row,
  five to a row.
\<close>

theorem categories_and_entries_sorted:
  "sorted (layout_labels (scroll_layout (populate_icons fs self)))
   \<and> distinct (layout_labels (scroll_layout (populate_icons fs self)))
   \<and> set (layout_labels (scroll_layout (populate_icons fs self))) =
       parent ` set (component_data self)
   \<and> (\<forall>grid \<in> set (layout_grids (scroll_layout (populate_icons fs self))).
        sorted (map (\<lambda>(pos, i). name (button_data (icon_buttons (populate_icons fs self) ! i)))
          grid)
        \<and> map fst grid = map (\<lambda>k. (k div max_cols, k mod max_cols)) [0..<length grid])"
proof -
  let ?g = "group_components (component_data self) []"
  have labels: "layout_labels (scroll_layout (populate_icons fs self)) = sort (map fst ?g)"
    by (simp add: populate_icons_eq category_widgets_labels)
  have 1: "sorted (layout_labels (scroll_layout (populate_icons fs self)))"
    unfolding labels by simp
  have 2: "distinct (layout_labels (scroll_layout (populate_icons fs self)))"
    unfolding labels using group_components_empty(1) by simp
  have 3: "set (layout_labels (scroll_layout (populate_icons fs self))) =
       parent ` set (component_data self)"
    unfolding labels using group_components_empty(2) [of "component_data self"] by simp
  have 4: "map fst grid = map (\<lambda>k. (k div max_cols, k mod max_cols)) [0..<length grid]"
    if "grid \<in> set (layout_grids (scroll_layout (populate_icons fs self)))" for grid
    using that category_widgets_positions [of fs ?g 0] by (simp add: populate_icons_eq)
  from 1 2 3 4 populate_icons_grid_sorted show ?thesis by blast
qed

theorem categories_and_entries_sorted_witness:
  "layout_labels (scroll_layout (populate_icons
      {str ''ui/assets/png/B/X.png'', str ''ui/assets/png/B/Z.png''}
      (empty_library\<lparr>component_data :=
        [\<lparr>parent = str ''b'', name = str ''Y'', object = str ''w''\<rparr>,
         \<lparr>parent = str ''B'', name = str ''Z'', object = str ''v''\<rparr>,
         \<lparr>parent = str ''B'', name = str ''X'', object = str ''u''\<rparr>]\<rparr>))) = [str ''B'', str ''b'']
   \<and> sorted (map (\<lambda>(pos, i). name (button_data (icon_buttons (populate_icons
      {str ''ui/assets/png/B/X.png'', str ''ui/assets/png/B/Z.png''}
      (empty_library\<lparr>component_data :=
        [\<lparr>parent = str ''b'', name = str ''Y'', object = str ''w''\<rparr>,
         \<lparr>parent = str ''B'', name = str ''Z'', object = str ''v''\<rparr>,
         \<lparr>parent = str ''B'', name = str ''X'', object = str ''u''\<rparr>]\<rparr>)) ! i)))
      [((0 :: nat, 0 :: nat), 0), ((0, 1), 1)])"
proof -
  let ?fs = "{str ''ui/assets/png/B/X.png'', str ''ui/assets/png/B/Z.png''}"
  let ?self = "empty_library\<lparr>component_data :=
        [\<lparr>parent = str ''b'', name = str ''Y'', object = str ''w''\<rparr>,
         \<lparr>parent = str ''B'', name = str ''Z'', object = str ''v''\<rparr>,
         \<lparr>parent = str ''B'', name = str ''X'', object = str ''u''\<rparr>]\<rparr>"
  have layout: "scroll_layout (populate_icons ?fs ?self) =
      [QLabel (str ''B''), GridWidget [((0 :: nat, 0 :: nat), 0), ((0, 1), 1)], QLabel (str ''b''), GridWidget []]"
    by (simp add: populate_icons_def empty_library_def Let_def sorted_components_def
        grouped_get_def path_exists_def get_icon_path_def path_join_def join2_def max_cols_def
        str_def)
  then have mem: "[((0 :: nat, 0 :: nat), 0), ((0, 1), 1)] \<in> set (layout_grids (scroll_layout (populate_icons ?fs ?self)))"
    by simp
  note t = categories_and_entries_sorted [of ?fs ?self]
  have "sorted (map (\<lambda>(pos, i). name (button_data (icon_buttons (populate_icons
      ?fs ?self) ! i))) [((0 :: nat, 0 :: nat), 0), ((0, 1), 1)])"
    by (rule t [THEN conjunct2, THEN conjunct2, THEN conjunct2, THEN bspec, OF mem,
          THEN conjunct1])
  moreover have "layout_labels (scroll_layout (populate_icons ?fs ?self)) = [str ''B'', str ''b'']"
    unfolding layout by simp
  ultimately show ?thesis by blast
qed

section \<open>Filtering\<close>

lemma starts_with_prefix: "starts_with hay needle \<longleftrightarrow> prefix needle hay"
  by (induction hay needle rule: starts_with.induct) auto

lemma str_in_sublist: "str_in needle hay \<longleftrightarrow> sublist needle hay"
proof (induction hay)
  case Nil
  then show ?case by simp
next
  case (Cons h hay)
  then show ?case
    by (simp only: str_in.simps starts_with_prefix sublist_Cons_right)
qed

text \<open>
  On ASCII strings \<open>lower\<close> does not tell a capital letter from its small letter, whatever
  the parameter.
\<close>

lemma lower_ascii_caseless:
  assumes "list_all2 (\<lambda>a b. a = b \<or> (65 \<le> a \<and> a \<le> 90 \<and> b = a + 32) \<or>
      (65 \<le> b \<and> b \<le> 90 \<and> a = b + 32)) q q'"
    and "isascii q"
  shows "lower ul q = lower ul q'"
proof -
  from assms have "isascii q' \<and> map ascii_lower q = map ascii_lower q'"
  proof (induction rule: list_all2_induct)
    case Nil
    then show ?case by (simp add: isascii_def)
  next
    case (Cons a q b q')
    from Cons.prems have a: "a < 128" and q: "isascii q" by (simp_all add: isascii_def)
    from Cons.hyps(1) a have "b < 128 \<and> ascii_lower a = ascii_lower b"
      by (auto simp: ascii_lower_def)
    with Cons.IH [OF q] show ?case by (simp add: isascii_def)
  qed
  with assms(2) show ?thesis by (simp add: lower_def)
qed

lemma filter_buttons_wired:
  assumes "\<forall>b \<in> set bs. category b = Some (parent (button_data b)) \<and>
      component_name b = Some (name (button_data b))"
  shows "filter_buttons ul s bs =
    (None, map (\<lambda>b. b\<lparr>visible := (sublist s (lower ul (name (button_data b))) \<or>
        sublist s (lower ul (parent (button_data b))))\<rparr>) bs)"
  using assms by (induction bs) (simp_all add: str_in_sublist)

lemma filter_icons_built:
  "filter_icons ul q (ComponentLibrary_init fs src) =
    (None, (ComponentLibrary_init fs src)\<lparr>icon_buttons :=
       map (\<lambda>b. b\<lparr>visible := (sublist (lower ul q) (lower ul (name (button_data b))) \<or>
           sublist (lower ul q) (lower ul (parent (button_data b))))\<rparr>)
         (icon_buttons (ComponentLibrary_init fs src))\<rparr>)"
proof -
  have "\<forall>b \<in> set (icon_buttons (ComponentLibrary_init fs src)).
      category b = Some (parent (button_data b)) \<and>
      component_name b = Some (name (button_data b))"
    unfolding ComponentLibrary_init_def using populate_icons_fields by blast
  from filter_buttons_wired [OF this] show ?thesis
    by (simp add: filter_icons_def)
qed

text \<open>The components that have a button are the loaded components with an icon file.\<close>

lemma button_data_set:
  "button_data ` set (icon_buttons (populate_icons fs self)) =
     {c \<in> set (component_data self). path_exists fs (get_icon_path (parent c) (name c))}"
proof -
  have "set_mset (mset (map button_data (icon_buttons (populate_icons fs self)))) =
      set_mset (filter_mset (\<lambda>c. path_exists fs (get_icon_path (parent c) (name c)))
        (mset (component_data self)))"
    by (simp only: buttons_mset)
  then show ?thesis by auto
qed

lemma populate_icons_component_data:
  "component_data (populate_icons fs self) = component_data self"
  by (simp add: populate_icons_eq)

text \<open>
  Claim C4, as the code has it. In the library as \<^verbatim>\<open>__init__\<close> builds it,
  \<^verbatim>\<open>_filter_icons\<close> raises nothing and sets the visibility of every button to: the
  lower-cased query is a substring of the lower-cased name of the button's component, or
  of its lower-cased category; nothing else of a button changes. A loaded entry is shown
  by a visible button exactly when its icon file exists and the query matches it so; an
  entry without an icon file has no button and is shown for no query. With the empty query
  every button is visible; the result depends on the last query only, not on the queries
  before it; two ASCII queries that differ in the case of letters give the same result, as
  do \<^verbatim>\<open>BTN\<close> and \<^verbatim>\<open>btn\<close>. All of it holds for every lower-casing of the strings
  beyond ASCII.
\<close>

theorem filter_icons_visibility:
  assumes "lib = ComponentLibrary_init fs src"
  shows "filter_icons ul q lib =
      (None, lib\<lparr>icon_buttons :=
         map (\<lambda>b. b\<lparr>visible := (sublist (lower ul q) (lower ul (name (button_data b))) \<or>
             sublist (lower ul q) (lower ul (parent (button_data b))))\<rparr>)
           (icon_buttons lib)\<rparr>)
    \<and> (\<forall>c \<in> set (component_data lib).
         (\<exists>b \<in> set (icon_buttons (snd (filter_icons ul q lib))). button_data b = c \<and> visible b)
         \<longleftrightarrow> path_exists fs (get_icon_path (parent c) (name c)) \<and>
             (sublist (lower ul q) (lower ul (name c)) \<or>
              sublist (lower ul q) (lower ul (parent c))))
    \<and> (q = [] \<longrightarrow> list_all visible (icon_buttons (snd (filter_icons ul q lib))))
    \<and> filter_icons ul q' (snd (filter_icons ul q lib)) = filter_icons ul q' lib
    \<and> (isascii q \<and>
        list_all2 (\<lambda>a b. a = b \<or> (65 \<le> a \<and> a \<le> 90 \<and> b = a + 32) \<or>
          (65 \<le> b \<and> b \<le> 90 \<and> a = b + 32)) q q'' \<longrightarrow>
        filter_icons ul q lib = filter_icons ul q'' lib)
    \<and> filter_icons ul (str ''BTN'') lib = filter_icons ul (str ''btn'') lib"
proof -
  let ?match = "\<lambda>q c. sublist (lower ul q) (lower ul (name c)) \<or>
             sublist (lower ul q) (lower ul (parent c))"
  let ?upd = "\<lambda>q b. b\<lparr>visible := ?match q (button_data b)\<rparr>"
  have main: "filter_icons ul q lib =
      (None, lib\<lparr>icon_buttons := map (?upd q) (icon_buttons lib)\<rparr>)"
    for q
    unfolding assms by (rule filter_icons_built)
  have lib1: "snd (filter_icons ul q lib) = lib\<lparr>icon_buttons := map (?upd q) (icon_buttons lib)\<rparr>"
    by (simp add: main)
  have data: "button_data ` set (icon_buttons lib) =
      {c \<in> set (component_data lib). path_exists fs (get_icon_path (parent c) (name c))}"
    unfolding assms ComponentLibrary_init_def
    by (simp only: button_data_set populate_icons_component_data)
  have entries: "(\<exists>b \<in> set (icon_buttons (snd (filter_icons ul q lib))).
        button_data b = c \<and> visible b)
      \<longleftrightarrow> path_exists fs (get_icon_path (parent c) (name c)) \<and> ?match q c"
    if c: "c \<in> set (component_data lib)" for c
  proof
    assume "\<exists>b \<in> set (icon_buttons (snd (filter_icons ul q lib))). button_data b = c \<and> visible b"
    then obtain b0 where b0: "b0 \<in> set (icon_buttons lib)" "button_data b0 = c" "?match q c"
      unfolding lib1 by auto
    from b0(1,2) have "c \<in> button_data ` set (icon_buttons lib)" by force
    with data b0(3) show "path_exists fs (get_icon_path (parent c) (name c)) \<and> ?match q c"
      by simp
  next
    assume a: "path_exists fs (get_icon_path (parent c) (name c)) \<and> ?match q c"
    with c data have "c \<in> button_data ` set (icon_buttons lib)" by simp
    then obtain b0 where b0: "b0 \<in> set (icon_buttons lib)" "button_data b0 = c" by auto
    from b0(1) have "?upd q b0 \<in> set (icon_buttons (snd (filter_icons ul q lib)))"
      unfolding lib1 by simp
    moreover have "button_data (?upd q b0) = c \<and> visible (?upd q b0)"
      using b0(2) a by simp
    ultimately show "\<exists>b \<in> set (icon_buttons (snd (filter_icons ul q lib))).
        button_data b = c \<and> visible b"
      by blast
  qed
  have "lower ul [] = []" by (simp add: lower_def isascii_def)
  then have empty: "list_all visible (icon_buttons (snd (filter_icons ul q lib)))" if "q = []"
    using that by (simp add: main list_all_iff)
  have "\<forall>b \<in> set (icon_buttons lib).
      category b = Some (parent (button_data b)) \<and>
      component_name b = Some (name (button_data b))"
    unfolding assms ComponentLibrary_init_def using populate_icons_fields by blast
  then have wired: "\<forall>b \<in> set (map (?upd q) (icon_buttons lib)).
      category b = Some (parent (button_data b)) \<and>
      component_name b = Some (name (button_data b))"
    by simp
  have twice: "map (?upd q') (map (?upd q) (icon_buttons lib)) = map (?upd q') (icon_buttons lib)"
    by simp
  have "filter_icons ul q' (snd (filter_icons ul q lib)) =
      (None, lib\<lparr>icon_buttons := map (?upd q') (icon_buttons lib)\<rparr>)"
    unfolding lib1 using filter_buttons_wired [OF wired, of ul "lower ul q'"]
    by (simp add: filter_icons_def twice)
  then have again: "filter_icons ul q' (snd (filter_icons ul q lib)) = filter_icons ul q' lib"
    by (simp add: main)
  have caseless: "filter_icons ul q lib = filter_icons ul q'' lib"
    if "isascii q \<and>
        list_all2 (\<lambda>a b. a = b \<or> (65 \<le> a \<and> a \<le> 90 \<and> b = a + 32) \<or>
          (65 \<le> b \<and> b \<le> 90 \<and> a = b + 32)) q q''"
  proof -
    from that have "lower ul q = lower ul q''" by (simp add: lower_ascii_caseless)
    then show ?thesis by (simp add: filter_icons_def)
  qed
  have "lower ul (str ''BTN'') = lower ul (str ''btn'')"
    by (simp add: lower_def isascii_def ascii_lower_def str_def)
  then have btn: "filter_icons ul (str ''BTN'') lib = filter_icons ul (str ''btn'') lib"
    by (simp add: filter_icons_def)
  from main entries empty again caseless btn show ?thesis by blast
qed

theorem filter_icons_visibility_witness:
  "\<forall>ul. map visible (icon_buttons (snd (filter_icons ul (str ''SLID'')
      (ComponentLibrary_init
        {str ''ui/assets/png/Inputs/Button.png'', str ''ui/assets/png/Inputs/Slider.png''}
        (Records [Inr [str ''parent'', str ''name'', str ''object''],
          Inr [str ''Inputs'', str ''Button'', str ''widget:button''],
          Inr [str ''Inputs'', str ''Slider'', str ''widget:slider'']]))))) = [False, True]"
proof
  fix ul
  let ?lib = "ComponentLibrary_init
        {str ''ui/assets/png/Inputs/Button.png'', str ''ui/assets/png/Inputs/Slider.png''}
        (Records [Inr [str ''parent'', str ''name'', str ''object''],
          Inr [str ''Inputs'', str ''Button'', str ''widget:button''],
          Inr [str ''Inputs'', str ''Slider'', str ''widget:slider'']])"
  have data: "map button_data (icon_buttons ?lib) =
      [\<lparr>parent = str ''Inputs'', name = str ''Button'', object = str ''widget:button''\<rparr>,
       \<lparr>parent = str ''Inputs'', name = str ''Slider'', object = str ''widget:slider''\<rparr>]"
    by (simp add: ComponentLibrary_init_def load_components_def reader_next_def
        field_size_limit_def empty_library_def dict_row_def
        load_row_def getitem_def strip_def isspace_def populate_icons_def Let_def
        sorted_components_def grouped_get_def path_exists_def get_icon_path_def path_join_def
        join2_def max_cols_def ComponentButton_init_def str_def)
  from filter_icons_visibility [OF refl, of ul "str ''SLID''", THEN conjunct1]
  have "map visible (icon_buttons (snd (filter_icons ul (str ''SLID'') ?lib))) =
      map (\<lambda>c. sublist (lower ul (str ''SLID'')) (lower ul (name c)) \<or>
          sublist (lower ul (str ''SLID'')) (lower ul (parent c)))
        (map button_data (icon_buttons ?lib))"
    by (simp add: comp_def)
  also have "\<dots> =
      map (\<lambda>c. str_in (lower ul (str ''SLID'')) (lower ul (name c)) \<or>
          str_in (lower ul (str ''SLID'')) (lower ul (parent c)))
        [\<lparr>parent = str ''Inputs'', name = str ''Button'', object = str ''widget:button''\<rparr>,
         \<lparr>parent = str ''Inputs'', name = str ''Slider'', object = str ''widget:slider''\<rparr>]"
    unfolding data by (simp only: str_in_sublist)
  also have "\<dots> = [False, True]"
    by (simp add: lower_def isascii_def ascii_lower_def str_def)
  finally show "map visible (icon_buttons (snd (filter_icons ul (str ''SLID'') ?lib))) =
      [False, True]" .
qed

text \<open>
  The claim as stated fails on an entry without an icon file: the entry (Inputs, Button)
  is loaded and the empty query is a substring of its name, but the library has no button
  for it, before and after \<^verbatim>\<open>_filter_icons\<close>. The strings are ASCII, so the parameter
  of \<open>lower\<close> plays no part; it is the identity here.
\<close>

theorem entry_without_icon_not_visible:
  "component_data (ComponentLibrary_init {}
      (Records [Inr [str ''parent'', str ''name'', str ''object''],
        Inr [str ''Inputs'', str ''Button'', str ''widget:button'']])) =
    [\<lparr>parent = str ''Inputs'', name = str ''Button'', object = str ''widget:button''\<rparr>]
   \<and> str_in (lower id []) (lower id (str ''Button''))
   \<and> icon_buttons (snd (filter_icons id []
        (ComponentLibrary_init {}
          (Records [Inr [str ''parent'', str ''name'', str ''object''],
            Inr [str ''Inputs'', str ''Button'', str ''widget:button'']])))) = []"
  by (simp add: ComponentLibrary_init_def load_components_def reader_next_def
      field_size_limit_def empty_library_def dict_row_def
      load_row_def getitem_def strip_def isspace_def populate_icons_def Let_def
      sorted_components_def grouped_get_def path_exists_def get_icon_path_def path_join_def
      join2_def max_cols_def filter_icons_def lower_def isascii_def ascii_lower_def str_def)

section \<open>Dragging\<close>

text \<open>
  A move with the left button down, after a press at a point other than (0, 0): below a
  Manhattan distance of 10 from the press position nothing is dragged, from 10 on the drag
  carries the payload of the button's component.
\<close>

lemma mouseMoveEvent_below_threshold:
  assumes "dragStartPosition self = Some start"
    and "manhattanLength (minus_point (pos event) start) < 10"
  shows "mouseMoveEvent self event = None"
  using assms by (simp add: mouseMoveEvent_def)

lemma mouseMoveEvent_drag:
  assumes "(buttons event AND LeftButton) \<noteq> 0"
    and "dragStartPosition self = Some start" and "\<not> isNull start"
    and "10 \<le> manhattanLength (minus_point (pos event) start)"
  shows "mouseMoveEvent self event =
    Some \<lparr>mimeText = object (button_data self), hasPixmap = has_icon self\<rparr>"
  using assms by (simp add: mouseMoveEvent_def)

lemma deliver_no_press:
  assumes "dragStartPosition self = None"
    and "\<not> (\<exists>p. Press p \<in> set evs \<and> button p = LeftButton)"
  shows "dragStartPosition (fst (deliver self evs)) = None"
  using assms
proof (induction self evs rule: deliver.induct)
  case (1 self)
  then show ?case by simp
next
  case (2 self event evs)
  then have "button event \<noteq> LeftButton" by auto
  then have "mousePressEvent self event = self" by (simp add: mousePressEvent_def)
  with 2 show ?case by auto
next
  case (3 self event evs)
  then show ?case by (auto split: option.splits prod.splits)
qed

text \<open>
  Claim C10. \<^verbatim>\<open>mouseMoveEvent\<close> starts no drag when the left button is not down or no
  press position is recorded; and on a button that starts with no press position, a move
  that starts a drag comes after a press of the left button on that button.
\<close>

theorem no_drag_without_left_press:
  "(((buttons event AND LeftButton) = 0 \<or> dragStartPosition self = None)
      \<longrightarrow> mouseMoveEvent self event = None)
   \<and> (dragStartPosition self = None \<and>
        mouseMoveEvent (fst (deliver self evs)) event \<noteq> None
      \<longrightarrow> (\<exists>p. Press p \<in> set evs \<and> button p = LeftButton))"
proof (intro conjI impI)
  assume "(buttons event AND LeftButton) = 0 \<or> dragStartPosition self = None"
  then show "mouseMoveEvent self event = None"
    by (auto simp: mouseMoveEvent_def)
next
  assume a: "dragStartPosition self = None \<and>
    mouseMoveEvent (fst (deliver self evs)) event \<noteq> None"
  show "\<exists>p. Press p \<in> set evs \<and> button p = LeftButton"
  proof (rule ccontr)
    assume "\<not> (\<exists>p. Press p \<in> set evs \<and> button p = LeftButton)"
    with a have "dragStartPosition (fst (deliver self evs)) = None"
      by (simp add: deliver_no_press)
    then have "mouseMoveEvent (fst (deliver self evs)) event = None"
      by (simp add: mouseMoveEvent_def)
    with a show False by simp
  qed
qed

theorem no_drag_without_left_press_witness:
  "mouseMoveEvent
      (fst (deliver (ComponentButton_init {} \<lparr>parent = str ''A'', name = str ''X'', object = str ''v''\<rparr> (str ''p''))
        [Press \<lparr>button = 1, buttons = 1, pos = QPoint 5 5\<rparr>]))
      \<lparr>button = 0, buttons = 1, pos = QPoint 25 5\<rparr> \<noteq> None
   \<and> (\<exists>p. Press p \<in> set [Press \<lparr>button = 1, buttons = 1, pos = QPoint 5 5\<rparr>] \<and> button p = LeftButton)"
  using no_drag_without_left_press
    [of "\<lparr>button = 0, buttons = 1, pos = QPoint 25 5\<rparr>"
        "ComponentButton_init {} \<lparr>parent = str ''A'', name = str ''X'', object = str ''v''\<rparr> (str ''p'')"
        "[Press \<lparr>button = 1, buttons = 1, pos = QPoint 5 5\<rparr>]"]
  by (simp add: ComponentButton_init_def mousePressEvent_def mouseMoveEvent_def LeftButton_def)

text \<open>
  Claim C7. A press of the left button at the point (0, 0) of the button, then a move of 20
  pixels with the left button down: the recorded position is a null point, which is false
  in the test \<^verbatim>\<open>not self.dragStartPosition\<close>, and no drag starts.
\<close>

theorem press_at_origin_never_drags:
  "mouseMoveEvent
      (mousePressEvent
        (ComponentButton_init {str ''ui/assets/png/A/X.png''}
          \<lparr>parent = str ''A'', name = str ''X'', object = str ''v''\<rparr> (str ''ui/assets/png/A/X.png''))
        \<lparr>button = 1, buttons = 1, pos = QPoint 0 0\<rparr>)
      \<lparr>button = 0, buttons = 1, pos = QPoint 20 0\<rparr> = None"
  by (simp add: ComponentButton_init_def mousePressEvent_def mouseMoveEvent_def LeftButton_def)

end
